theory Spec2Isabelle
  imports Complex_Main
begin

section \<open>tomless: a tokenizer and a stack-driven parser for a TOML-like language\<close>

text \<open>
  A shallow embedding of \<^verbatim>\<open>src/tomless.py\<close>: the class \<^verbatim>\<open>TomlTokenizer\<close> (ten
  compiled regular expressions tried in a fixed order, line by line) and the class
  \<^verbatim>\<open>TomlParser\<close> (three status classes driven through a status stack).

  The module is Python 2 code (\<^verbatim>\<open>str.decode\<close>, \<^verbatim>\<open>unicode\<close>, \<^verbatim>\<open>e.message\<close>), so the text
  that \<^verbatim>\<open>parse_content\<close> receives is a byte string: \<open>string\<close> here, one \<open>char\<close> per byte.
  On byte strings \<^verbatim>\<open>\s\<close> and \<^verbatim>\<open>str.strip\<close> know the six ASCII white-space bytes, \<^verbatim>\<open>\d\<close> the
  ten ASCII digits, and \<^verbatim>\<open>str.splitlines\<close> breaks at LF, CR and CR LF only.

  One function of the module is imported from a library outside it:
  \<^verbatim>\<open>from dateutil.parser import parse as parse_datetime\<close>. It is a parameter
  \<open>parse_datetime\<close> of the tokenizer here: \<open>None\<close> where the library raises (a
  \<^verbatim>\<open>ValueError\<close>), the object it returns otherwise.
\<close>

subsection \<open>Python values\<close>

text \<open>
  Every object the tokenizer or the parser stores: \<^verbatim>\<open>None\<close>, booleans, integers
  (unbounded), floats (a double is the real number it denotes, \<open>VInf\<close> is \<^verbatim>\<open>float('inf')\<close>),
  byte strings (\<^verbatim>\<open>str\<close>), Unicode strings (\<^verbatim>\<open>unicode\<close>, kept as their UTF-8 encoding),
  timestamps, lists and dictionaries. A timestamp is an object of the library: it is kept
  as the text it was parsed from, with the one thing the parser does to it, whether
  \<^verbatim>\<open>str\<close> of it returns (\<^verbatim>\<open>datetime.isoformat\<close> raises \<^verbatim>\<open>ValueError\<close> for a time zone whose
  offset is a day or more). A dictionary is an association list in insertion order with
  at most one entry per key.
\<close>

datatype pyobj =
    VNone
  | VBool bool
  | VInt int
  | VFloat real
  | VInf
  | VStr string
  | VUnicode string
  | VDatetime string bool
  | VList "pyobj list"
  | VDict "(pyobj \<times> pyobj) list"

type_synonym dict = "(pyobj \<times> pyobj) list"

text \<open>\<^verbatim>\<open>TomlToken = namedtuple('TomlToken', 'type, val, row_no, col_no')\<close>\<close>

datatype token = TomlToken (t_type: string) (t_val: pyobj) (row_no: "nat option") (col_no: "nat option")

datatype error =
    LexError nat nat string
      \<comment> \<open>\<^verbatim>\<open>Exception('lex error at line {} {}: {}')\<close>: line number, offset, line text\<close>
  | AttributeError
  | IndexError
  | TypeError
  | ValueError
  | UnicodeEncodeError

subsection \<open>Python string operations\<close>

definition is_space :: "char \<Rightarrow> bool" where
  "is_space c \<longleftrightarrow> c \<in> set [CHR '' '', CHR 0x09, CHR 0x0A, CHR 0x0B, CHR 0x0C, CHR 0x0D]"

definition is_digit :: "char \<Rightarrow> bool" where
  "is_digit c \<longleftrightarrow> c \<in> set ''0123456789''"

definition is_id_start :: "char \<Rightarrow> bool" where
  "is_id_start c \<longleftrightarrow>
     c \<in> set ''_abcdefghijklmnopqrstuvwxyzABCDEFGHIJKLMNOPQRSTUVWXYZ''"

definition is_id_char :: "char \<Rightarrow> bool" where
  "is_id_char c \<longleftrightarrow> is_id_start c \<or> is_digit c"

definition py_strip :: "string \<Rightarrow> string" where
  "py_strip s = rev (dropWhile is_space (rev (dropWhile is_space s)))"

text \<open>
  \<^verbatim>\<open>str.splitlines()\<close>: a line ends at LF, CR or CR LF; the terminator is dropped; text
  after the last terminator is a line only when it is not empty.
\<close>

fun splitlines_from :: "string \<Rightarrow> string \<Rightarrow> string list" where
  "splitlines_from cur [] = (if cur = [] then [] else [cur])"
| "splitlines_from cur (c # cs) =
     (if c = CHR 0x0A then cur # splitlines_from [] cs
      else if c = CHR 0x0D then
        (case cs of
           [] \<Rightarrow> [cur]
         | d # ds \<Rightarrow> if d = CHR 0x0A then cur # splitlines_from [] ds
                     else cur # splitlines_from [] cs)
      else splitlines_from (cur @ [c]) cs)"

definition py_splitlines :: "string \<Rightarrow> string list" where
  "py_splitlines s = splitlines_from [] s"

text \<open>\<^verbatim>\<open>s.split(sep)\<close> for a one-character separator.\<close>

fun split_from :: "char \<Rightarrow> string \<Rightarrow> string \<Rightarrow> string list" where
  "split_from sep cur [] = [cur]"
| "split_from sep cur (c # cs) =
     (if c = sep then cur # split_from sep [] cs else split_from sep (cur @ [c]) cs)"

definition py_split :: "string \<Rightarrow> char \<Rightarrow> string list" where
  "py_split s sep = split_from sep [] s"

text \<open>
  \<^verbatim>\<open>s.replace(src, dst)\<close> for a two-character \<^verbatim>\<open>src\<close> and a one-character \<^verbatim>\<open>dst\<close>:
  occurrences are replaced from left to right without overlap.
\<close>

fun replace2 :: "char \<Rightarrow> char \<Rightarrow> char \<Rightarrow> string \<Rightarrow> string" where
  "replace2 a b d (x # y # s) =
     (if x = a \<and> y = b then d # replace2 a b d s else x # replace2 a b d (y # s))"
| "replace2 a b d s = s"

text \<open>
  \<^verbatim>\<open>s.decode('utf-8')\<close> succeeds on the byte strings that CPython 2.7's decoder accepts: a
  byte below \<^verbatim>\<open>0x80\<close>; a lead byte \<^verbatim>\<open>0xC2\<close> to \<^verbatim>\<open>0xDF\<close> and one continuation byte (\<^verbatim>\<open>0x80\<close>
  to \<^verbatim>\<open>0xBF\<close>); \<^verbatim>\<open>0xE0\<close> to \<^verbatim>\<open>0xEF\<close> and two (the first at least \<^verbatim>\<open>0xA0\<close> after \<^verbatim>\<open>0xE0\<close>;
  surrogates are let through); \<^verbatim>\<open>0xF0\<close> to \<^verbatim>\<open>0xF4\<close> and three (the first at least \<^verbatim>\<open>0x90\<close>
  after \<^verbatim>\<open>0xF0\<close>, at most \<^verbatim>\<open>0x8F\<close> after \<^verbatim>\<open>0xF4\<close>).
\<close>

definition byte :: "char \<Rightarrow> nat" where
  "byte c = of_char c"

definition is_cont :: "char \<Rightarrow> bool" where
  "is_cont c \<longleftrightarrow> 128 \<le> byte c \<and> byte c < 192"

fun utf8_decodable :: "string \<Rightarrow> bool" where
  "utf8_decodable [] = True"
| "utf8_decodable [c] = (byte c < 128)"
| "utf8_decodable [c, c1] =
     (if byte c < 128 then utf8_decodable [c1]
      else 194 \<le> byte c \<and> byte c < 224 \<and> is_cont c1)"
| "utf8_decodable [c, c1, c2] =
     (if byte c < 128 then utf8_decodable [c1, c2]
      else if 194 \<le> byte c \<and> byte c < 224 then is_cont c1 \<and> utf8_decodable [c2]
      else 224 \<le> byte c \<and> byte c < 240 \<and> is_cont c1 \<and> is_cont c2 \<and>
           (byte c = 224 \<longrightarrow> 160 \<le> byte c1))"
| "utf8_decodable (c # c1 # c2 # c3 # s) =
     (if byte c < 128 then utf8_decodable (c1 # c2 # c3 # s)
      else if 194 \<le> byte c \<and> byte c < 224 then is_cont c1 \<and> utf8_decodable (c2 # c3 # s)
      else if 224 \<le> byte c \<and> byte c < 240
        then is_cont c1 \<and> is_cont c2 \<and> (byte c = 224 \<longrightarrow> 160 \<le> byte c1) \<and>
             utf8_decodable (c3 # s)
      else 240 \<le> byte c \<and> byte c < 245 \<and> is_cont c1 \<and> is_cont c2 \<and> is_cont c3 \<and>
           (byte c = 240 \<longrightarrow> 144 \<le> byte c1) \<and> (byte c = 244 \<longrightarrow> byte c1 < 144) \<and>
           utf8_decodable s)"

text \<open>
  \<^verbatim>\<open>unescape\<close>: the three replacements in the order of \<^verbatim>\<open>escaping_map\<close>, then
  \<^verbatim>\<open>s.decode('utf-8')\<close>, which returns a \<^verbatim>\<open>unicode\<close> object; when the bytes are not UTF-8 the
  \<^verbatim>\<open>except\<close> branch prints the message and the byte string is returned as it is.
\<close>

definition replace_escapes :: "string \<Rightarrow> string" where
  "replace_escapes s =
     replace2 (CHR 0x5C) (CHR ''r'') (CHR 0x0D)
       (replace2 (CHR 0x5C) (CHR ''n'') (CHR 0x0A)
         (replace2 (CHR 0x5C) (CHR ''t'') (CHR 0x09) s))"

definition unescape :: "string \<Rightarrow> pyobj" where
  "unescape s =
     (let s' = replace_escapes s in if utf8_decodable s' then VUnicode s' else VStr s')"

text \<open>\<^verbatim>\<open>int(x)\<close> on the texts the pattern lets through.\<close>

definition digit_val :: "char \<Rightarrow> nat" where
  "digit_val c = of_char c - 48"

definition py_int :: "string \<Rightarrow> int" where
  "py_int s = foldl (\<lambda>n c. 10 * n + int (digit_val c)) 0 s"

text \<open>
  \<^verbatim>\<open>float(x)\<close> is the double nearest to the number the literal denotes, ties to the even
  significand, and \<^verbatim>\<open>inf\<close> from \<open>2 ^ 1024 - 2 ^ 970\<close> on. For a positive quotient \<open>n / d\<close>:
  \<open>e\<close> is its binary exponent, \<open>s\<close> the exponent of the last place of the 53-bit
  significand (not below that of the subnormal numbers), \<open>m\<close> the quotient rounded to a
  multiple of \<open>2 ^ s\<close>.
\<close>

function bitlen :: "int \<Rightarrow> int" where
  "bitlen n = (if n \<le> 0 then 0 else 1 + bitlen (n div 2))"
  by pat_completeness auto
termination
  by (relation "measure nat") auto

declare bitlen.simps [simp del]

definition round_half_even :: "int \<Rightarrow> int \<Rightarrow> int" where
  "round_half_even a b =
     (let q = a div b; r = a mod b
      in if 2 * r < b then q else if b < 2 * r then q + 1 else if even q then q else q + 1)"

definition to_double :: "int \<Rightarrow> int \<Rightarrow> pyobj" where
  "to_double n d =
     (if n = 0 then VFloat 0
      else
        (let c = bitlen n - bitlen d;
             e = (if (if 0 \<le> c then d * 2 ^ nat c \<le> n else d \<le> n * 2 ^ nat (- c))
                  then c else c - 1);
             s = max e (- 1022) - 52
         in if 0 \<le> s then
              (let m = round_half_even n (d * 2 ^ nat s)
               in if 2 ^ 1024 \<le> m * 2 ^ nat s then VInf
                  else VFloat (real_of_int (m * 2 ^ nat s)))
            else VFloat (real_of_int (round_half_even (n * 2 ^ nat (- s)) d) / 2 ^ nat (- s))))"

definition py_float :: "string \<Rightarrow> pyobj" where
  "py_float s =
     (let a = takeWhile is_digit s; b = drop (Suc (length a)) s
      in to_double (py_int (a @ b)) (10 ^ length b))"

subsection \<open>The patterns\<close>

text \<open>
  \<^verbatim>\<open>pattern.match(line, offset)\<close> anchors the expression at \<^verbatim>\<open>offset\<close>; none of the ten
  expressions looks behind, so each is a function of the text from \<^verbatim>\<open>offset\<close> on, giving
  \<^verbatim>\<open>match.group(0)\<close> or \<open>None\<close>.
\<close>

text \<open>\<^verbatim>\<open>(true|false)\<close>\<close>

definition m_bool :: "string \<Rightarrow> string option" where
  "m_bool s =
     (if take 4 s = ''true'' then Some ''true''
      else if take 5 s = ''false'' then Some ''false'' else None)"

text \<open>\<^verbatim>\<open>(#[\s\S]*)\<close>: a \<^verbatim>\<open>#\<close> and everything after it.\<close>

definition m_comment :: "string \<Rightarrow> string option" where
  "m_comment s = (case s of [] \<Rightarrow> None | c # cs \<Rightarrow> if c = CHR ''#'' then Some s else None)"

text \<open>\<^verbatim>\<open>([_a-zA-Z][a-zA-Z0-9_]*)\<close>\<close>

definition m_id :: "string \<Rightarrow> string option" where
  "m_id s =
     (case s of [] \<Rightarrow> None
      | c # cs \<Rightarrow> if is_id_start c then Some (c # takeWhile is_id_char cs) else None)"

text \<open>
  \<^verbatim>\<open>(\[[_a-zA-Z][a-zA-Z0-9_]*(\.[_a-zA-Z][a-zA-Z0-9_]*)*\])\<close>. Neither \<^verbatim>\<open>.\<close> nor \<^verbatim>\<open>]\<close>
  is an identifier character, so backtracking into a shorter identifier never helps:
  after each identifier the next character decides.
\<close>

fun section_tail :: "string \<Rightarrow> string option" where
  "section_tail [] = None"
| "section_tail (c # cs) =
     (if c = CHR '']'' then Some '']''
      else if c = CHR ''.'' then
        (case m_id cs of
           None \<Rightarrow> None
         | Some i \<Rightarrow>
             (case section_tail (drop (length i) cs) of
                None \<Rightarrow> None
              | Some r \<Rightarrow> Some (c # i @ r)))
      else None)"

definition m_section :: "string \<Rightarrow> string option" where
  "m_section s =
     (case s of [] \<Rightarrow> None
      | c # cs \<Rightarrow>
          if c = CHR ''['' then
            (case m_id cs of
               None \<Rightarrow> None
             | Some i \<Rightarrow>
                 (case section_tail (drop (length i) cs) of
                    None \<Rightarrow> None
                  | Some r \<Rightarrow> Some (c # i @ r)))
          else None)"

text \<open>\<^verbatim>\<open>("[^"]*")\<close>\<close>

definition m_string :: "string \<Rightarrow> string option" where
  "m_string s =
     (case s of [] \<Rightarrow> None
      | c # cs \<Rightarrow>
          if c = CHR 0x22 \<and> CHR 0x22 \<in> set cs
          then Some (c # takeWhile (\<lambda>x. x \<noteq> CHR 0x22) cs @ [CHR 0x22])
          else None)"

text \<open>\<^verbatim>\<open>(\s+)\<close>\<close>

definition m_whitespace :: "string \<Rightarrow> string option" where
  "m_whitespace s = (let w = takeWhile is_space s in if w = [] then None else Some w)"

text \<open>\<^verbatim>\<open>([,\[\]=])\<close>\<close>

definition m_literal :: "string \<Rightarrow> string option" where
  "m_literal s =
     (case s of [] \<Rightarrow> None | c # cs \<Rightarrow> if c \<in> set '',[]='' then Some [c] else None)"

text \<open>
  \<^verbatim>\<open>(\d{4}-\d{2}-\d{2}T\d{2}:\d{2}:\d{2}([-+]\d{2}:?\d{2}|Z))\<close>: nineteen fixed positions,
  then a zone of six, five or one characters.
\<close>

fun fits :: "(char \<Rightarrow> bool) list \<Rightarrow> string \<Rightarrow> bool" where
  "fits [] s = True"
| "fits (p # ps) [] = False"
| "fits (p # ps) (c # cs) = (p c \<and> fits ps cs)"

definition is_sign :: "char \<Rightarrow> bool" where
  "is_sign c \<longleftrightarrow> c = CHR ''-'' \<or> c = CHR ''+''"

definition datetime_head :: "(char \<Rightarrow> bool) list" where
  "datetime_head =
     [is_digit, is_digit, is_digit, is_digit, (=) CHR ''-'', is_digit, is_digit, (=) CHR ''-'',
      is_digit, is_digit, (=) CHR ''T'', is_digit, is_digit, (=) CHR '':'', is_digit, is_digit,
      (=) CHR '':'', is_digit, is_digit]"

definition m_datetime :: "string \<Rightarrow> string option" where
  "m_datetime s =
     (if fits datetime_head s then
        (let z = drop 19 s in
         if fits [is_sign, is_digit, is_digit, (=) CHR '':'', is_digit, is_digit] z
           then Some (take 25 s)
         else if fits [is_sign, is_digit, is_digit, is_digit, is_digit] z
           then Some (take 24 s)
         else if fits [(=) CHR ''Z''] z then Some (take 20 s)
         else None)
      else None)"

text \<open>\<^verbatim>\<open>(\d+\.\d+)\<close>\<close>

definition m_float :: "string \<Rightarrow> string option" where
  "m_float s =
     (let a = takeWhile is_digit s in
      if a = [] then None
      else (case drop (length a) s of
              [] \<Rightarrow> None
            | c # r \<Rightarrow>
                (let b = takeWhile is_digit r in
                 if c = CHR ''.'' \<and> b \<noteq> [] then Some (a @ c # b) else None)))"

text \<open>\<^verbatim>\<open>(\d+)\<close>\<close>

definition m_int :: "string \<Rightarrow> string option" where
  "m_int s = (let a = takeWhile is_digit s in if a = [] then None else Some a)"

text \<open>
  \<^verbatim>\<open>PATTERNS\<close>: name, expression and processor (\<open>None\<close> where the source has \<^verbatim>\<open>None\<close>),
  in the order of the source. A processor returns its value or the error it raises; only
  the one of \<^verbatim>\<open>datetime\<close> can raise.
\<close>

type_synonym dateutil = "string \<Rightarrow> pyobj option"

type_synonym pattern =
  "string \<times> (string \<Rightarrow> string option) \<times> (string \<Rightarrow> error + pyobj) option"

definition PATTERNS :: "dateutil \<Rightarrow> pattern list" where
  "PATTERNS parse_datetime =
     [(''bool'', m_bool, Some (\<lambda>x. Inr (VBool (x = ''true'')))),
      (''comment'', m_comment, Some (\<lambda>x. Inr (VStr (py_strip (tl x))))),
      (''id'', m_id, None),
      (''section'', m_section, Some (\<lambda>x. Inr (VStr (py_strip (butlast (tl x)))))),
      (''string'', m_string, Some (\<lambda>x. Inr (unescape (py_strip (butlast (tl x)))))),
      (''whitespace'', m_whitespace, Some (\<lambda>x. Inr VNone)),
      (''literal'', m_literal, None),
      (''datetime'', m_datetime,
         Some (\<lambda>x. case parse_datetime x of None \<Rightarrow> Inl ValueError | Some d \<Rightarrow> Inr d)),
      (''float'', m_float, Some (\<lambda>x. Inr (py_float x))),
      (''int'', m_int, Some (\<lambda>x. Inr (VInt (py_int x))))]"

subsection \<open>The tokenizer\<close>

text \<open>
  The \<^verbatim>\<open>for\<close> loop of \<^verbatim>\<open>tokenize_line\<close> over the patterns. It has no \<^verbatim>\<open>break\<close>: after a
  match the loop goes on with the \<^emph>\<open>next\<close> pattern at the advanced offset. The result is
  the offset after the loop and the tokens yielded. A literal's token type is its value,
  the matched character.
\<close>

fun scan_patterns ::
  "pattern list \<Rightarrow> string \<Rightarrow> nat \<Rightarrow> nat \<Rightarrow> error + nat \<times> token list" where
  "scan_patterns [] line line_no offset = Inr (offset, [])"
| "scan_patterns ((name, pattern, processor) # ps) line line_no offset =
     (case pattern (drop offset line) of
        None \<Rightarrow> scan_patterns ps line line_no offset
      | Some content \<Rightarrow>
          (case (case processor of Some f \<Rightarrow> f content | None \<Rightarrow> Inr (VStr content)) of
             Inl e \<Rightarrow> Inl e
           | Inr val \<Rightarrow>
               (let yielded =
                      (if name \<noteq> ''whitespace''
                       then [TomlToken (if name = ''literal'' then content else name) val
                               (Some line_no) (Some offset)]
                       else [])
                in (case scan_patterns ps line line_no (offset + length content) of
                      Inl e \<Rightarrow> Inl e
                    | Inr (offset', toks) \<Rightarrow> Inr (offset', yielded @ toks)))))"

lemma scan_patterns_mono:
  "scan_patterns ps line line_no offset = Inr (offset', toks) \<Longrightarrow> offset \<le> offset'"
proof (induction ps arbitrary: offset toks)
  case Nil
  then show ?case by simp
next
  case (Cons p ps)
  obtain name pattern processor where p: "p = (name, pattern, processor)"
    by (cases p) auto
  show ?case
  proof (cases "pattern (drop offset line)")
    case None
    with p Cons.prems Cons.IH [of offset toks] show ?thesis by simp
  next
    case (Some content)
    with p Cons.prems obtain toks' where
      "scan_patterns ps line line_no (offset + length content) = Inr (offset', toks')"
      by (auto simp: Let_def split: sum.splits prod.splits)
    from Cons.IH [OF this] show ?thesis by simp
  qed
qed

text \<open>
  The \<^verbatim>\<open>while\<close> loop of \<^verbatim>\<open>tokenize_line\<close>, from \<^verbatim>\<open>offset\<close> on, over the stripped line. The
  generator is consumed by \<^verbatim>\<open>list(...)\<close> in every caller, so the result is the raised
  error or the whole list.
\<close>

function tokenize_from :: "dateutil \<Rightarrow> string \<Rightarrow> nat \<Rightarrow> nat \<Rightarrow> error + token list" where
  "tokenize_from parse_datetime line line_no offset =
     (if offset < length line then
        (case scan_patterns (PATTERNS parse_datetime) line line_no offset of
           Inl e \<Rightarrow> Inl e
         | Inr (offset', toks) \<Rightarrow>
             if offset = offset' then Inl (LexError line_no offset line)
             else (case tokenize_from parse_datetime line line_no offset' of
                     Inl e \<Rightarrow> Inl e
                   | Inr rest \<Rightarrow> Inr (toks @ rest)))
      else Inr [])"
  by pat_completeness auto
termination
  apply (relation "measure (\<lambda>(parse_datetime, line, line_no, offset). length line - offset)")
   apply simp
  subgoal for parse_datetime line line_no offset x offset' toks
    using scan_patterns_mono [of "PATTERNS parse_datetime" line line_no offset offset' toks]
    by auto
  done

declare tokenize_from.simps [simp del]

definition tokenize_line :: "dateutil \<Rightarrow> string \<Rightarrow> nat \<Rightarrow> error + token list" where
  "tokenize_line parse_datetime line line_no =
     tokenize_from parse_datetime (py_strip line) line_no 0"

text \<open>\<^verbatim>\<open>for i, line in enumerate(content.strip().splitlines())\<close>, line numbers \<open>i + 1\<close>.\<close>

fun tokenize_lines :: "dateutil \<Rightarrow> string list \<Rightarrow> nat \<Rightarrow> error + token list" where
  "tokenize_lines parse_datetime [] i = Inr []"
| "tokenize_lines parse_datetime (line # rest) i =
     (case tokenize_line parse_datetime line (i + 1) of
        Inl e \<Rightarrow> Inl e
      | Inr toks \<Rightarrow>
          (case tokenize_lines parse_datetime rest (i + 1) of
             Inl e \<Rightarrow> Inl e
           | Inr toks' \<Rightarrow> Inr (toks @ toks')))"

definition tokenize_content :: "dateutil \<Rightarrow> string \<Rightarrow> error + token list" where
  "tokenize_content parse_datetime content =
     tokenize_lines parse_datetime (py_splitlines (py_strip content)) 0"

subsection \<open>Dictionaries\<close>

text \<open>
  \<^verbatim>\<open>d[k] = v\<close> overwrites the entry of an equal key or appends a new one; \<^verbatim>\<open>d.update(o)\<close>
  stores every entry of \<^verbatim>\<open>o\<close>. Keys are compared structurally, which is Python's \<^verbatim>\<open>==\<close>
  on the keys the parser uses: strings and \<^verbatim>\<open>None\<close>.
\<close>

fun dict_set :: "dict \<Rightarrow> pyobj \<Rightarrow> pyobj \<Rightarrow> dict" where
  "dict_set [] k v = [(k, v)]"
| "dict_set ((k', v') # d) k v =
     (if k' = k then (k', v) # d else (k', v') # dict_set d k v)"

definition dict_update :: "dict \<Rightarrow> dict \<Rightarrow> dict" where
  "dict_update d other = foldl (\<lambda>d (k, v). dict_set d k v) d other"

text \<open>Lists and dictionaries cannot be keys: storing under one raises \<^verbatim>\<open>TypeError\<close>.\<close>

fun hashable :: "pyobj \<Rightarrow> bool" where
  "hashable (VList xs) = False"
| "hashable (VDict d) = False"
| "hashable v = True"

text \<open>The truth value of an object, as \<^verbatim>\<open>if section_name:\<close> takes it.\<close>

fun py_truthy :: "pyobj \<Rightarrow> bool" where
  "py_truthy VNone = False"
| "py_truthy (VBool b) = b"
| "py_truthy (VInt i) = (i \<noteq> 0)"
| "py_truthy (VFloat f) = (f \<noteq> 0)"
| "py_truthy VInf = True"
| "py_truthy (VStr s) = (s \<noteq> [])"
| "py_truthy (VUnicode s) = (s \<noteq> [])"
| "py_truthy (VDatetime s ok) = True"
| "py_truthy (VList xs) = (xs \<noteq> [])"
| "py_truthy (VDict d) = (d \<noteq> [])"

subsection \<open>The parser's state\<close>

text \<open>
  The attributes of a \<^verbatim>\<open>TomlParser\<close>, each field named after its attribute with the prefix
  \<open>p_\<close>. The four stacks keep their top at the head of the list (\<^verbatim>\<open>append\<close> is \<open>#\<close>,
  \<^verbatim>\<open>pop\<close> takes the head). \<^verbatim>\<open>_status\<close>, \<^verbatim>\<open>var\<close> and \<^verbatim>\<open>_section_name\<close> are not set by
  \<^verbatim>\<open>__init__\<close>: reading \<^verbatim>\<open>var\<close> or \<^verbatim>\<open>_section_name\<close> before an assignment goes through
  \<^verbatim>\<open>__getattr__\<close>, which finds no such attribute on the status class and returns
  \<^verbatim>\<open>None\<close>; \<^verbatim>\<open>_status\<close> is assigned by the first \<^verbatim>\<open>enter\<close> of \<^verbatim>\<open>parse\<close> before anything
  reads it.
\<close>

datatype status = StatusBuildSection | StatusBuildValue | StatusBuildList

record parser =
  p_result :: dict
  p_context :: dict
  p_status_history :: "status list"
  p_section_history :: "pyobj list"
  p_token_history :: "token list"
  p_value_stack :: "token list"
  p_status :: status
  p_var :: pyobj
  p_section_name :: pyobj

definition init :: parser where
  "init = \<lparr>p_result = [], p_context = [], p_status_history = [], p_section_history = [],
            p_token_history = [], p_value_stack = [], p_status = StatusBuildSection,
            p_var = VNone, p_section_name = VNone\<rparr>"

text \<open>
  The positional argument that \<^verbatim>\<open>enter\<close> hands on to \<^verbatim>\<open>_on_enter\<close>: none, a section
  name, or the opening-bracket token.
\<close>

datatype pyarg = NoArg | NameArg pyobj | TokenArg token

subsection \<open>\<^verbatim>\<open>combine_values\<close>\<close>

text \<open>
  \<^verbatim>\<open>'found val {} {}'.format(val.type, val.val)\<close> is evaluated before the logger is asked:
  formatting an object into a byte string calls \<^verbatim>\<open>str\<close> on it. For a \<^verbatim>\<open>unicode\<close> object that
  encodes it to ASCII, which raises \<^verbatim>\<open>UnicodeEncodeError\<close> when a character is not ASCII;
  for a timestamp it is \<^verbatim>\<open>isoformat\<close>; a list is formatted through the \<^verbatim>\<open>repr\<close> of its
  elements, which never raises, and so are the other objects. The types of tokens are
  byte strings. (The calls of \<^verbatim>\<open>logger.debug\<close> with arguments format only inside
  \<^verbatim>\<open>logging\<close>, which raises nothing to the caller.)
\<close>

fun format_error :: "pyobj \<Rightarrow> error option" where
  "format_error (VUnicode s) =
     (if list_all (\<lambda>c. byte c < 128) s then None else Some UnicodeEncodeError)"
| "format_error (VDatetime s ok) = (if ok then None else Some ValueError)"
| "format_error v = None"

text \<open>
  The \<^verbatim>\<open>while True\<close> loop: pop until a token of type \<^verbatim>\<open>stop_type\<close>, collecting the
  values of the others; popping from the empty stack raises \<^verbatim>\<open>IndexError\<close>.
\<close>

fun pop_until :: "string \<Rightarrow> token list \<Rightarrow> pyobj list \<Rightarrow> error + (pyobj list \<times> token list)" where
  "pop_until stop_type [] vals = Inl IndexError"
| "pop_until stop_type (val # stack) vals =
     (case format_error (t_val val) of
        Some e \<Rightarrow> Inl e
      | None \<Rightarrow>
          if t_type val = stop_type then Inr (vals, stack)
          else pop_until stop_type stack (vals @ [t_val val]))"

definition combine_values :: "string option \<Rightarrow> parser \<Rightarrow> error + (token \<times> parser)" where
  "combine_values stop_type p =
     (case stop_type of
        Some st \<Rightarrow>
          (case pop_until st (p_value_stack p) [] of
             Inl e \<Rightarrow> Inl e
           | Inr (vals, stack) \<Rightarrow>
               Inr (TomlToken ''list'' (VList (rev vals)) None None, p\<lparr>p_value_stack := stack\<rparr>))
      | None \<Rightarrow>
          (case p_value_stack p of
             [] \<Rightarrow> Inl IndexError
           | val # stack \<Rightarrow> Inr (val, p\<lparr>p_value_stack := stack\<rparr>)))"

subsection \<open>\<^verbatim>\<open>StatusBuildSection.sync_result\<close>\<close>

text \<open>
  The \<^verbatim>\<open>for part in parts\<close> loop and the final \<^verbatim>\<open>parent.update(self.context)\<close>, on the
  dictionary \<^verbatim>\<open>parent\<close>. \<^verbatim>\<open>setdefault\<close> stores an empty dictionary under a missing part;
  \<^verbatim>\<open>parent = parent[part]\<close> then descends. When the entry is not a dictionary, the next
  \<^verbatim>\<open>parent.setdefault\<close> or the final \<^verbatim>\<open>parent.update\<close> raises \<^verbatim>\<open>AttributeError\<close>: no other
  value has these methods. The dictionaries are mutated in place; the function returns
  \<^verbatim>\<open>parent\<close> as it is afterwards.
\<close>

fun sync_parts :: "dict \<Rightarrow> string list \<Rightarrow> dict \<Rightarrow> error + dict" where
  "sync_parts parent [] ctx = Inr (dict_update parent ctx)"
| "sync_parts parent (part # parts) ctx =
     (case map_of parent (VStr part) of
        None \<Rightarrow>
          (case sync_parts [] parts ctx of
             Inl e \<Rightarrow> Inl e
           | Inr child \<Rightarrow> Inr (dict_set parent (VStr part) (VDict child)))
      | Some (VDict d) \<Rightarrow>
          (case sync_parts d parts ctx of
             Inl e \<Rightarrow> Inl e
           | Inr child \<Rightarrow> Inr (dict_set parent (VStr part) (VDict child)))
      | Some _ \<Rightarrow> Inl AttributeError)"

text \<open>
  A true \<^verbatim>\<open>section_name\<close> that is not a string has no \<^verbatim>\<open>split\<close>: \<^verbatim>\<open>AttributeError\<close>.
\<close>

definition sync_result :: "parser \<Rightarrow> pyobj \<Rightarrow> error + parser" where
  "sync_result p section_name =
     (if p_context p = [] then Inr p
      else if py_truthy section_name then
        (case section_name of
           VStr s \<Rightarrow>
             (case sync_parts (p_result p) (py_split s (CHR ''.'')) (p_context p) of
                Inl e \<Rightarrow> Inl e
              | Inr r \<Rightarrow> Inr (p\<lparr>p_result := r, p_context := []\<rparr>))
         | _ \<Rightarrow> Inl AttributeError)
      else Inr (p\<lparr>p_result := dict_update (p_result p) (p_context p), p_context := []\<rparr>))"

subsection \<open>The status classes: \<^verbatim>\<open>_on_enter\<close>, \<^verbatim>\<open>_on_exit\<close>\<close>

text \<open>
  \<^verbatim>\<open>__getattr__\<close> resolves \<^verbatim>\<open>self._on_enter\<close>, \<^verbatim>\<open>self._on_exit\<close>, \<^verbatim>\<open>self.feed\<close> and
  \<^verbatim>\<open>self.sync_result\<close> in the class named by \<^verbatim>\<open>self._status\<close>: the first argument of
  \<open>on_enter\<close>, \<open>on_exit\<close> is that status.
\<close>

fun on_enter :: "status \<Rightarrow> pyarg \<Rightarrow> parser \<Rightarrow> error + parser" where
  "on_enter StatusBuildSection a p =
     (case sync_result p (p_section_name p) of
        Inl e \<Rightarrow> Inl e
      | Inr p1 \<Rightarrow>
          (let name = (case a of NameArg n \<Rightarrow> n | _ \<Rightarrow> VNone);
               hist = p_section_history p1;
               popped = (name = VNone \<and> hist \<noteq> []);
               name' = (if popped then hd hist else name);
               hist' = (if popped then tl hist else hist)
           in Inr (p1\<lparr>p_section_history := name' # hist', p_section_name := name'\<rparr>)))"
| "on_enter StatusBuildValue a p = Inr p"
| "on_enter StatusBuildList a p =
     (case a of
        TokenArg token \<Rightarrow>
          Inr (p\<lparr>p_token_history := token # p_token_history p,
                 p_value_stack := token # p_value_stack p\<rparr>)
      | _ \<Rightarrow>
          (if p_token_history p \<noteq> [] then Inr (p\<lparr>p_token_history := tl (p_token_history p)\<rparr>)
           else Inr p))"

fun on_exit :: "status \<Rightarrow> parser \<Rightarrow> error + parser" where
  "on_exit StatusBuildSection p = sync_result p (p_section_name p)"
| "on_exit StatusBuildValue p =
     (if p_value_stack p \<noteq> [] then
        (case combine_values None p of
           Inl e \<Rightarrow> Inl e
         | Inr (val, p1) \<Rightarrow>
             if hashable (p_var p1)
             then Inr (p1\<lparr>p_context := dict_set (p_context p1) (p_var p1) (t_val val)\<rparr>)
             else Inl TypeError)
      else Inr p)"
| "on_exit StatusBuildList p =
     (case combine_values (Some ''['') p of
        Inl e \<Rightarrow> Inl e
      | Inr (val, p1) \<Rightarrow> Inr (p1\<lparr>p_value_stack := val # p_value_stack p1\<rparr>))"

subsection \<open>\<^verbatim>\<open>enter\<close>, \<^verbatim>\<open>exit\<close>, \<^verbatim>\<open>feed\<close>\<close>

definition enter :: "status \<Rightarrow> pyarg \<Rightarrow> parser \<Rightarrow> error + parser" where
  "enter st a p =
     on_enter st a (p\<lparr>p_status := st, p_status_history := st # p_status_history p\<rparr>)"

text \<open>
  \<^verbatim>\<open>exit\<close> pops the status stack (\<^verbatim>\<open>IndexError\<close> when it is empty), runs the \<^verbatim>\<open>_on_exit\<close> of
  the class \<^verbatim>\<open>_status\<close> names and, when a status is left, pops that one too and enters it
  again with no argument.
\<close>

definition exit :: "parser \<Rightarrow> error + parser" where
  "exit p =
     (case p_status_history p of
        [] \<Rightarrow> Inl IndexError
      | current_status # hist \<Rightarrow>
          (case on_exit (p_status p) (p\<lparr>p_status_history := hist\<rparr>) of
             Inl e \<Rightarrow> Inl e
           | Inr p1 \<Rightarrow>
               (case p_status_history p1 of
                  [] \<Rightarrow> Inr p1
                | last_status # hist1 \<Rightarrow>
                    enter last_status NoArg (p1\<lparr>p_status_history := hist1\<rparr>))))"

lemma sync_result_history:
  "sync_result p n = Inr p1 \<Longrightarrow> p_status_history p1 = p_status_history p"
  by (auto simp: sync_result_def split: if_splits pyobj.splits sum.splits)

lemma on_enter_history:
  "on_enter st a p = Inr p1 \<Longrightarrow> p_status_history p1 = p_status_history p"
  by (cases st)
    (auto simp: Let_def split: sum.splits pyarg.splits if_splits dest: sync_result_history)

lemma on_exit_history:
  "on_exit st p = Inr p1 \<Longrightarrow> p_status_history p1 = p_status_history p"
  by (cases st)
    (auto simp: combine_values_def
      split: sum.splits if_splits list.splits prod.splits dest: sync_result_history)

lemma enter_history:
  "enter st a p = Inr p1 \<Longrightarrow> p_status_history p1 = st # p_status_history p"
  by (auto simp: enter_def dest: on_enter_history)

lemma exit_history:
  "exit p = Inr p1 \<Longrightarrow> Suc (length (p_status_history p1)) = length (p_status_history p)"
  by (auto simp: exit_def split: list.splits sum.splits
      dest!: on_exit_history enter_history)

text \<open>
  \<^verbatim>\<open>self.feed(token)\<close>, dispatched on \<^verbatim>\<open>_status\<close>. \<^verbatim>\<open>StatusBuildValue.feed\<close> feeds the token
  again after its \<^verbatim>\<open>exit\<close>, to whichever status is current then; each \<^verbatim>\<open>exit\<close> shortens the
  status stack, so the recursion ends.
\<close>

function feed :: "parser \<Rightarrow> token \<Rightarrow> error + parser" where
  "feed p token =
     (case p_status p of
        StatusBuildSection \<Rightarrow>
          if t_type token \<in> set [''id''] then Inr (p\<lparr>p_var := t_val token\<rparr>)
          else if t_type token \<in> set [''=''] then enter StatusBuildValue NoArg p
          else if t_type token \<in> set [''section'']
            then enter StatusBuildSection (NameArg (t_val token)) p
          else Inr p
      | StatusBuildValue \<Rightarrow>
          if t_type token \<in> set [''id'', '']'', ''section'', ''eof''] then
            (case exit p of
               Inl e \<Rightarrow> Inl e
             | Inr p1 \<Rightarrow>
                 if t_type token \<in> set [''id'', ''section''] then feed p1 token else Inr p1)
          else if t_type token \<in> set [''int'', ''float'', ''string'', ''datetime'', ''bool'']
            then Inr (p\<lparr>p_value_stack := token # p_value_stack p\<rparr>)
          else if t_type token \<in> set [''['']
            then enter StatusBuildList (TokenArg token) p
          else Inr p
      | StatusBuildList \<Rightarrow>
          if t_type token \<in> set ['',''] then Inr p
          else if t_type token \<in> set [''['']
            then enter StatusBuildList (TokenArg token) p
          else if t_type token \<in> set ['']''] then exit p
          else if t_type token \<in> set [''int'', ''float'', ''string'', ''datetime'', ''bool'']
            then Inr (p\<lparr>p_value_stack := token # p_value_stack p\<rparr>)
          else Inr p)"
  by pat_completeness auto
termination
  apply (relation "measure (\<lambda>(p, token). length (p_status_history p))")
   apply simp
  subgoal for p token p1
    using exit_history [of p p1] by simp
  done

declare feed.simps [simp del]

subsection \<open>\<^verbatim>\<open>parse\<close> and \<^verbatim>\<open>parse_content\<close>\<close>

text \<open>The \<^verbatim>\<open>for token in self.tokens\<close> loop: comments are skipped, every other token is fed.\<close>

fun feed_tokens :: "parser \<Rightarrow> token list \<Rightarrow> error + parser" where
  "feed_tokens p [] = Inr p"
| "feed_tokens p (token # tokens) =
     (if t_type token \<in> set [''comment''] then feed_tokens p tokens
      else (case feed p token of
              Inl e \<Rightarrow> Inl e
            | Inr p1 \<Rightarrow> feed_tokens p1 tokens))"

definition eof :: token where
  "eof = TomlToken ''eof'' (VStr []) None None"

definition parse :: "token list \<Rightarrow> error + dict" where
  "parse tokens =
     (case enter StatusBuildSection (NameArg (VStr [])) init of
        Inl e \<Rightarrow> Inl e
      | Inr p0 \<Rightarrow>
          (case feed_tokens p0 tokens of
             Inl e \<Rightarrow> Inl e
           | Inr p1 \<Rightarrow>
               (case feed p1 eof of
                  Inl e \<Rightarrow> Inl e
                | Inr p2 \<Rightarrow>
                    (case exit p2 of
                       Inl e \<Rightarrow> Inl e
                     | Inr p3 \<Rightarrow> Inr (p_result p3)))))"

definition parse_content :: "dateutil \<Rightarrow> string \<Rightarrow> error + dict" where
  "parse_content parse_datetime content =
     (case tokenize_content parse_datetime content of
        Inl e \<Rightarrow> Inl e
      | Inr tokens \<Rightarrow> parse tokens)"


section \<open>Properties\<close>

text \<open>
  Statements about the tokenizer hold for every behaviour \<open>parse_datetime\<close> of the
  library. Where an example has to be evaluated at one, it is \<open>any_date\<close>, the library that
  parses every text the pattern admits.
\<close>

definition any_date :: dateutil where
  "any_date x = Some (VDatetime x True)"

subsection \<open>A reference tokenizer: first matching pattern at every offset\<close>

text \<open>
  The tokenizer as the specification words it: at each offset the patterns are tried from
  the first one on, the first that matches yields the token, and the scan starts again
  from the first pattern at the advanced offset. It is compared with \<open>tokenize_content\<close>
  below. No pattern matches the empty text; the test for it only serves the termination
  proof.
\<close>

fun first_match :: "pattern list \<Rightarrow> string \<Rightarrow> (pattern \<times> string) option" where
  "first_match [] s = None"
| "first_match ((name, pattern, processor) # ps) s =
     (case pattern s of
        None \<Rightarrow> first_match ps s
      | Some content \<Rightarrow> Some ((name, pattern, processor), content))"

function ref_tokenize_from :: "dateutil \<Rightarrow> string \<Rightarrow> nat \<Rightarrow> nat \<Rightarrow> error + token list" where
  "ref_tokenize_from parse_datetime line line_no offset =
     (if offset < length line then
        (case first_match (PATTERNS parse_datetime) (drop offset line) of
           None \<Rightarrow> Inl (LexError line_no offset line)
         | Some ((name, pattern, processor), content) \<Rightarrow>
             if content = [] then Inl (LexError line_no offset line)
             else
               (case (case processor of Some f \<Rightarrow> f content | None \<Rightarrow> Inr (VStr content)) of
                  Inl e \<Rightarrow> Inl e
                | Inr val \<Rightarrow>
                    (case ref_tokenize_from parse_datetime line line_no (offset + length content) of
                       Inl e \<Rightarrow> Inl e
                     | Inr rest \<Rightarrow>
                         Inr ((if name \<noteq> ''whitespace''
                               then [TomlToken (if name = ''literal'' then content else name) val
                                       (Some line_no) (Some offset)]
                               else []) @ rest))))
      else Inr [])"
  by pat_completeness auto
termination
  apply (relation "measure (\<lambda>(parse_datetime, line, line_no, offset). length line - offset)")
   apply simp
  apply (auto simp: length_greater_0_conv [symmetric] simp del: length_greater_0_conv)
  done

declare ref_tokenize_from.simps [simp del]

fun ref_tokenize_lines :: "dateutil \<Rightarrow> string list \<Rightarrow> nat \<Rightarrow> error + token list" where
  "ref_tokenize_lines parse_datetime [] i = Inr []"
| "ref_tokenize_lines parse_datetime (line # rest) i =
     (case ref_tokenize_from parse_datetime (py_strip line) (i + 1) 0 of
        Inl e \<Rightarrow> Inl e
      | Inr toks \<Rightarrow>
          (case ref_tokenize_lines parse_datetime rest (i + 1) of
             Inl e \<Rightarrow> Inl e
           | Inr toks' \<Rightarrow> Inr (toks @ toks')))"

definition ref_tokenize_content :: "dateutil \<Rightarrow> string \<Rightarrow> error + token list" where
  "ref_tokenize_content parse_datetime content =
     ref_tokenize_lines parse_datetime (py_splitlines (py_strip content)) 0"

subsection \<open>Errors that reach the caller\<close>

text \<open>
  Claim C1 (fails on the code): \<^verbatim>\<open>parse_content\<close> either raises the tokenizer's lex error or
  returns a result tree, also when a section header names a path whose prefix already
  holds a scalar. On \<^verbatim>\<open>"x = 1\n[x]\ny = 2"\<close> the tokenizer succeeds and the parser raises:
  \<^verbatim>\<open>sync_result\<close> descends into the integer stored under \<^verbatim>\<open>x\<close> and calls \<^verbatim>\<open>update\<close> on it,
  an \<^verbatim>\<open>AttributeError\<close> that nothing catches, whatever the library does with timestamps.
\<close>

theorem parse_content_section_over_scalar:
  "tokenize_content parse_datetime (''x = 1'' @ [CHR 0x0A] @ ''[x]'' @ [CHR 0x0A] @ ''y = 2'') =
     Inr [TomlToken ''id'' (VStr ''x'') (Some 1) (Some 0),
          TomlToken ''='' (VStr ''='') (Some 1) (Some 2),
          TomlToken ''int'' (VInt 1) (Some 1) (Some 4),
          TomlToken ''section'' (VStr ''x'') (Some 2) (Some 0),
          TomlToken ''id'' (VStr ''y'') (Some 3) (Some 0),
          TomlToken ''='' (VStr ''='') (Some 3) (Some 2),
          TomlToken ''int'' (VInt 2) (Some 3) (Some 4)]
   \<and> parse_content parse_datetime (''x = 1'' @ [CHR 0x0A] @ ''[x]'' @ [CHR 0x0A] @ ''y = 2'') =
     Inl AttributeError"
  by code_simp

subsection \<open>The tokenizer against the reference tokenizer\<close>

text \<open>
  Claim C5 (fails on the code): the token at every offset comes from the first pattern,
  in the fixed order, that matches there, so that \<^verbatim>\<open>tokenize_content\<close> equals the reference
  tokenizer. The \<^verbatim>\<open>for\<close> loop has no \<^verbatim>\<open>break\<close>: after \<^verbatim>\<open>bool\<close> has matched the first
  \<^verbatim>\<open>true\<close> of \<^verbatim>\<open>"truetrue"\<close>, the loop goes on with \<^verbatim>\<open>comment\<close> and \<^verbatim>\<open>id\<close> at offset 4, and
  \<^verbatim>\<open>id\<close> takes the second \<^verbatim>\<open>true\<close>, which the first pattern \<^verbatim>\<open>bool\<close> matches there.
\<close>

theorem tokenize_content_not_first_match:
  "tokenize_content parse_datetime ''truetrue'' =
     Inr [TomlToken ''bool'' (VBool True) (Some 1) (Some 0),
          TomlToken ''id'' (VStr ''true'') (Some 1) (Some 4)]
   \<and> ref_tokenize_content parse_datetime ''truetrue'' =
     Inr [TomlToken ''bool'' (VBool True) (Some 1) (Some 0),
          TomlToken ''bool'' (VBool True) (Some 1) (Some 4)]
   \<and> m_bool (drop 4 ''truetrue'') = Some ''true''"
  by code_simp

subsection \<open>Running the parser: vocabulary and step lemmas\<close>

text \<open>
  \<open>start\<close> is the parser after the first \<^verbatim>\<open>enter('StatusBuildSection', '')\<close> of \<^verbatim>\<open>parse\<close>;
  \<open>finish\<close> is what \<^verbatim>\<open>parse\<close> does after its loop: feed the \<^verbatim>\<open>eof\<close> token, \<^verbatim>\<open>exit\<close> once,
  return \<^verbatim>\<open>self.result\<close>. \<open>scalar\<close> holds of the five token types that carry a value.
\<close>

definition start :: parser where
  "start = \<lparr>p_result = [], p_context = [], p_status_history = [StatusBuildSection],
     p_section_history = [VStr []], p_token_history = [], p_value_stack = [],
     p_status = StatusBuildSection, p_var = VNone, p_section_name = VStr []\<rparr>"

definition finish :: "parser \<Rightarrow> error + dict" where
  "finish p =
     (case feed p eof of
        Inl e \<Rightarrow> Inl e
      | Inr p2 \<Rightarrow> (case exit p2 of Inl e \<Rightarrow> Inl e | Inr p3 \<Rightarrow> Inr (p_result p3)))"

definition scalar :: "token \<Rightarrow> bool" where
  "scalar t \<longleftrightarrow> t_type t \<in> set [''int'', ''float'', ''string'', ''datetime'', ''bool'']"

text \<open>
  What holds of the parser between two tokens: the status stack is a run of
  \<^verbatim>\<open>StatusBuildList\<close> on at most one \<^verbatim>\<open>StatusBuildValue\<close> on \<^verbatim>\<open>StatusBuildSection\<close>s, its top
  is \<^verbatim>\<open>_status\<close>, the value stack holds one opening bracket per open list, the pending
  context is empty (every \<^verbatim>\<open>StatusBuildValue\<close> exit is followed by the \<^verbatim>\<open>sync_result\<close> of the
  re-entered \<^verbatim>\<open>StatusBuildSection\<close>), and \<^verbatim>\<open>_section_name\<close> is the top of the section stack.
\<close>

fun shape :: "status list \<Rightarrow> bool" where
  "shape [] = False"
| "shape [s] = (s = StatusBuildSection)"
| "shape (s # s' # r) =
     ((case s of
         StatusBuildSection \<Rightarrow> s' = StatusBuildSection
       | StatusBuildValue \<Rightarrow> s' = StatusBuildSection
       | StatusBuildList \<Rightarrow> s' \<noteq> StatusBuildSection) \<and> shape (s' # r))"

definition open_brackets :: "token list \<Rightarrow> nat" where
  "open_brackets ts = length (filter (\<lambda>t. t_type t = ''['') ts)"

definition open_lists :: "status list \<Rightarrow> nat" where
  "open_lists h = length (filter (\<lambda>s. s = StatusBuildList) h)"

definition consistent :: "parser \<Rightarrow> bool" where
  "consistent p \<longleftrightarrow>
     shape (p_status_history p) \<and> hd (p_status_history p) = p_status p \<and>
     open_brackets (p_value_stack p) = open_lists (p_status_history p) \<and>
     p_context p = [] \<and> p_section_history p \<noteq> [] \<and>
     p_section_name p = hd (p_section_history p)"

lemma enter_init: "enter StatusBuildSection (NameArg (VStr [])) init = Inr start"
  by (simp add: enter_def init_def start_def sync_result_def Let_def)

lemma parse_run:
  "parse tokens = (case feed_tokens start tokens of Inl e \<Rightarrow> Inl e | Inr p \<Rightarrow> finish p)"
  by (simp add: parse_def enter_init finish_def split: sum.splits)

lemma feed_tokens_append:
  "feed_tokens p (xs @ ys) =
     (case feed_tokens p xs of Inl e \<Rightarrow> Inl e | Inr p1 \<Rightarrow> feed_tokens p1 ys)"
  by (induction xs arbitrary: p) (auto split: sum.splits)

lemma feed_section:
  "p_status p = StatusBuildSection \<Longrightarrow> feed p t =
     (if t_type t = ''id'' then Inr (p\<lparr>p_var := t_val t\<rparr>)
      else if t_type t = ''='' then enter StatusBuildValue NoArg p
      else if t_type t = ''section'' then enter StatusBuildSection (NameArg (t_val t)) p
      else Inr p)"
  by (simp add: feed.simps)

lemma feed_value:
  "p_status p = StatusBuildValue \<Longrightarrow> feed p t =
     (if t_type t \<in> set [''id'', '']'', ''section'', ''eof''] then
        (case exit p of
           Inl e \<Rightarrow> Inl e
         | Inr p1 \<Rightarrow> if t_type t \<in> set [''id'', ''section''] then feed p1 t else Inr p1)
      else if scalar t then Inr (p\<lparr>p_value_stack := t # p_value_stack p\<rparr>)
      else if t_type t = ''['' then enter StatusBuildList (TokenArg t) p
      else Inr p)"
  by (subst feed.simps) (simp add: scalar_def)

lemma feed_list:
  "p_status p = StatusBuildList \<Longrightarrow> feed p t =
     (if t_type t = '','' then Inr p
      else if t_type t = ''['' then enter StatusBuildList (TokenArg t) p
      else if t_type t = '']'' then exit p
      else if scalar t then Inr (p\<lparr>p_value_stack := t # p_value_stack p\<rparr>)
      else Inr p)"
  by (subst feed.simps) (simp add: scalar_def)

lemma sync_result_empty: "p_context p = [] \<Longrightarrow> sync_result p n = Inr p"
  by (simp add: sync_result_def)

lemma enter_value: "enter StatusBuildValue a p =
  Inr (p\<lparr>p_status := StatusBuildValue, p_status_history := StatusBuildValue # p_status_history p\<rparr>)"
  by (simp add: enter_def)

lemma enter_list_token: "enter StatusBuildList (TokenArg t) p =
  Inr (p\<lparr>p_status := StatusBuildList, p_status_history := StatusBuildList # p_status_history p,
         p_token_history := t # p_token_history p, p_value_stack := t # p_value_stack p\<rparr>)"
  by (simp add: enter_def)

lemma enter_section_name:
  "p_context p = [] \<Longrightarrow> n \<noteq> VNone \<Longrightarrow> enter StatusBuildSection (NameArg n) p =
     Inr (p\<lparr>p_status := StatusBuildSection,
            p_status_history := StatusBuildSection # p_status_history p,
            p_section_history := n # p_section_history p, p_section_name := n\<rparr>)"
  by (simp add: enter_def sync_result_def Let_def)

lemma shape_nonempty: "shape h \<Longrightarrow> h \<noteq> []"
  by (cases h) auto

lemma shape_section: "shape (StatusBuildSection # r) \<Longrightarrow> open_lists (StatusBuildSection # r) = 0"
  by (induction r rule: shape.induct [of _ ])
   (auto simp: open_lists_def split: status.splits)


text \<open>
  A token is \<open>printable\<close> when formatting its value raises nothing; popping printable
  tokens down to a bracket that is on the stack succeeds.
\<close>

definition printable :: "token \<Rightarrow> bool" where
  "printable t \<longleftrightarrow> format_error (t_val t) = None"

lemma pop_until_brackets:
  "pop_until ''['' stack acc = Inr (vals, rest) \<Longrightarrow>
   Suc (open_brackets rest) = open_brackets stack"
  by (induction stack arbitrary: acc)
    (auto simp: open_brackets_def split: option.splits if_splits)

lemma pop_until_bracket:
  "0 < open_brackets stack \<Longrightarrow> list_all printable stack \<Longrightarrow>
   \<exists>vals rest. pop_until ''['' stack acc = Inr (vals, rest)"
  by (induction stack arbitrary: acc) (auto simp: open_brackets_def printable_def)

lemma consistent_feed_section:
  assumes "consistent p" "p_status p = StatusBuildSection" "feed p t = Inr p'"
  shows "consistent p'"
proof -
  from assms(1) obtain r where h: "p_status_history p = StatusBuildSection # r"
    using assms(2) by (cases "p_status_history p") (auto simp: consistent_def)
  show ?thesis
    using assms h
    by (auto simp: feed_section consistent_def enter_def sync_result_def Let_def open_lists_def
        split: if_splits)
qed

lemma consistent_exit_value:
  assumes "consistent p" "p_status p = StatusBuildValue" "exit p = Inr p1"
  shows "consistent p1 \<and> p_status p1 = StatusBuildSection"
proof -
  from assms(1,2) obtain r where h: "p_status_history p = StatusBuildValue # StatusBuildSection # r"
    by (cases "p_status_history p"; cases "tl (p_status_history p)")
       (auto simp: consistent_def)
  from assms(1) h have sh: "shape (StatusBuildSection # r)" by (simp add: consistent_def)
  have z: "open_lists (StatusBuildSection # r) = 0" by (rule shape_section [OF sh])
  from assms(1) h z have b: "open_brackets (p_value_stack p) = 0"
    by (simp add: consistent_def open_lists_def)
  show ?thesis
    using assms h sh b z
    by (auto simp: exit_def consistent_def enter_def sync_result_def Let_def open_lists_def
        open_brackets_def combine_values_def
        split: if_splits list.splits sum.splits pyobj.splits)
qed

text \<open>
  Closing a list: the bracket that opened it is on the value stack, so the only failure
  is a value that cannot be formatted.
\<close>

lemma exit_list:
  assumes "consistent p" "p_status p = StatusBuildList"
  shows "exit p =
    (case pop_until ''['' (p_value_stack p) [] of
       Inl e \<Rightarrow> Inl e
     | Inr (vals, rest) \<Rightarrow>
         Inr (p\<lparr>p_status_history := tl (p_status_history p),
                p_value_stack := TomlToken ''list'' (VList (rev vals)) None None # rest,
                p_status := hd (tl (p_status_history p)),
                p_token_history :=
                  (if hd (tl (p_status_history p)) = StatusBuildList
                   then tl (p_token_history p) else p_token_history p)\<rparr>))"
proof -
  from assms obtain s r where h: "p_status_history p = StatusBuildList # s # r"
    and s: "s \<noteq> StatusBuildSection" and sh: "shape (s # r)"
    by (cases "p_status_history p"; cases "tl (p_status_history p)")
       (auto simp: consistent_def)
  show ?thesis
    using assms h s sh
    by (cases s; cases p)
       (auto simp: exit_def enter_def combine_values_def split: sum.splits)
qed

lemma consistent_exit_list:
  assumes "consistent p" "p_status p = StatusBuildList" "exit p = Inr p1"
  shows "consistent p1 \<and> p_result p1 = p_result p \<and> p_var p1 = p_var p \<and>
           p_status_history p1 = tl (p_status_history p)"
proof -
  from assms(1,2) obtain s r where h: "p_status_history p = StatusBuildList # s # r"
    and s: "s \<noteq> StatusBuildSection" and sh: "shape (s # r)"
    by (cases "p_status_history p"; cases "tl (p_status_history p)")
       (auto simp: consistent_def)
  from assms(3) exit_list [OF assms(1,2)] obtain vals rest
    where pu: "pop_until ''['' (p_value_stack p) [] = Inr (vals, rest)"
      and p1: "p1 = p\<lparr>p_status_history := tl (p_status_history p),
                p_value_stack := TomlToken ''list'' (VList (rev vals)) None None # rest,
                p_status := hd (tl (p_status_history p)),
                p_token_history :=
                  (if hd (tl (p_status_history p)) = StatusBuildList
                   then tl (p_token_history p) else p_token_history p)\<rparr>"
    by (auto split: sum.splits)
  from pop_until_brackets [OF pu]
  have ob: "Suc (open_brackets rest) = open_brackets (p_value_stack p)" .
  show ?thesis
    using assms(1,2) h s sh ob p1
    by (cases s) (auto simp: consistent_def open_lists_def open_brackets_def)
qed

lemma consistent_feed:
  assumes "consistent p" "feed p t = Inr p'"
  shows "consistent p'"
proof (cases "p_status p")
  case StatusBuildSection
  from consistent_feed_section [OF assms(1) StatusBuildSection assms(2)] show ?thesis .
next
  case StatusBuildValue
  from assms(1) StatusBuildValue obtain r
    where h: "p_status_history p = StatusBuildValue # r"
    by (cases "p_status_history p") (auto simp: consistent_def)
  show ?thesis
  proof (cases "t_type t \<in> set [''id'', '']'', ''section'', ''eof'']")
    case True
    with assms(2) StatusBuildValue obtain p1 where e: "exit p = Inr p1"
      and f: "(if t_type t \<in> set [''id'', ''section''] then feed p1 t else Inr p1) = Inr p'"
      by (auto simp: feed_value split: sum.splits)
    from consistent_exit_value [OF assms(1) StatusBuildValue e]
    have c1: "consistent p1" and s1: "p_status p1 = StatusBuildSection" by auto
    show ?thesis
    proof (cases "t_type t \<in> set [''id'', ''section'']")
      case True
      with f have "feed p1 t = Inr p'" by simp
      from consistent_feed_section [OF c1 s1 this] show ?thesis .
    next
      case False
      with f c1 show ?thesis by simp
    qed
  next
    case False
    with assms StatusBuildValue h show ?thesis
      by (auto simp: feed_value enter_list_token consistent_def open_lists_def open_brackets_def
          scalar_def split: if_splits)
  qed
next
  case StatusBuildList
  from assms(1) StatusBuildList obtain r
    where h: "p_status_history p = StatusBuildList # r"
    by (cases "p_status_history p") (auto simp: consistent_def)
  show ?thesis
  proof (cases "t_type t = '']''")
    case True
    with assms(2) StatusBuildList have "exit p = Inr p'" by (simp add: feed_list)
    from consistent_exit_list [OF assms(1) StatusBuildList this] show ?thesis by simp
  next
    case False
    with assms StatusBuildList h show ?thesis
      by (auto simp: feed_list enter_list_token consistent_def open_lists_def open_brackets_def
          scalar_def split: if_splits)
  qed
qed

lemma consistent_feed_tokens:
  "consistent p \<Longrightarrow> feed_tokens p ts = Inr p' \<Longrightarrow> consistent p'"
  by (induction ts arbitrary: p) (auto split: if_splits sum.splits dest: consistent_feed)

lemma consistent_start: "consistent start"
  by (simp add: consistent_def start_def open_brackets_def open_lists_def)


subsection \<open>End of input\<close>

lemma exit_section_result:
  assumes "consistent p" "p_status p = StatusBuildSection"
  shows "\<exists>p1. exit p = Inr p1 \<and> p_result p1 = p_result p"
proof -
  from assms obtain r where h: "p_status_history p = StatusBuildSection # r"
    by (cases "p_status_history p") (auto simp: consistent_def)
  from assms(1) h have "r = [] \<or> (\<exists>r'. r = StatusBuildSection # r')"
    by (cases r) (auto simp: consistent_def)
  with assms h show ?thesis
    by (auto simp: exit_def consistent_def sync_result_def enter_def Let_def)
qed

lemma finish_section:
  assumes "consistent p" "p_status p = StatusBuildSection"
  shows "finish p = Inr (p_result p)"
  using exit_section_result [OF assms] assms(2)
  by (auto simp: finish_def feed_section eof_def)

lemma finish_list:
  assumes "consistent p" "p_status p = StatusBuildList"
  shows "finish p = (case exit p of Inl e \<Rightarrow> Inl e | Inr p1 \<Rightarrow> Inr (p_result p))"
proof (cases "exit p")
  case (Inl e)
  with assms(2) show ?thesis by (simp add: finish_def feed_list eof_def scalar_def)
next
  case (Inr p1)
  from consistent_exit_list [OF assms Inr] Inr assms(2) show ?thesis
    by (simp add: finish_def feed_list eof_def scalar_def)
qed

lemma finish_value:
  assumes "consistent p" "p_status p = StatusBuildValue"
  shows "finish p = (case exit p of Inl e \<Rightarrow> Inl e | Inr p1 \<Rightarrow> Inr (p_result p1))"
proof (cases "exit p")
  case (Inl e)
  with assms(2) show ?thesis by (simp add: finish_def feed_value eof_def)
next
  case (Inr p1)
  from consistent_exit_value [OF assms Inr] exit_section_result [of p1]
  obtain p2 where "exit p1 = Inr p2" "p_result p2 = p_result p1" by auto
  with Inr assms(2) show ?thesis by (simp add: finish_def feed_value eof_def)
qed


subsection \<open>An assignment without a value\<close>

text \<open>
  \<open>next_statement ts\<close>: the input ends here, or its next token that is not a comment
  starts a statement (an identifier or a section header).
\<close>

fun next_statement :: "token list \<Rightarrow> bool" where
  "next_statement [] = True"
| "next_statement (t # ts) =
     (if t_type t = ''comment'' then next_statement ts
      else t_type t \<in> set [''id'', ''section''])"

lemma feed_id_status:
  assumes "consistent p0" "t_type k = ''id''" "feed p0 k = Inr p"
  shows "p_status p \<noteq> StatusBuildValue"
proof (cases "p_status p0")
  case StatusBuildSection
  with assms show ?thesis by (auto simp: feed_section)
next
  case StatusBuildValue
  with assms obtain p1 where e: "exit p0 = Inr p1" and f: "feed p1 k = Inr p"
    by (auto simp: feed_value split: sum.splits)
  from consistent_exit_value [OF assms(1) StatusBuildValue e] f assms(2) show ?thesis
    by (auto simp: feed_section)
next
  case StatusBuildList
  with assms show ?thesis by (auto simp: feed_list scalar_def)
qed

lemma exit_empty_value:
  assumes "consistent p" "p_status p = StatusBuildSection" "p_value_stack p = []"
  shows "exit (p\<lparr>p_status := StatusBuildValue,
                 p_status_history := StatusBuildValue # p_status_history p\<rparr>) = Inr p"
proof -
  from assms obtain r where h: "p_status_history p = StatusBuildSection # r"
    by (cases "p_status_history p") (auto simp: consistent_def)
  from assms(1) obtain n ns where s: "p_section_history p = n # ns" "p_section_name p = n"
    by (cases "p_section_history p") (auto simp: consistent_def)
  from assms(1) have c: "p_context p = []" by (simp add: consistent_def)
  show ?thesis
    using assms(2,3) h s c
    by (cases p) (simp add: exit_def enter_def sync_result_def Let_def)
qed

lemma empty_value_rest:
  assumes "consistent p" "p_status p = StatusBuildSection" "p_value_stack p = []"
    "next_statement rest"
  shows "(case feed_tokens (p\<lparr>p_status := StatusBuildValue,
              p_status_history := StatusBuildValue # p_status_history p\<rparr>) rest of
            Inl x \<Rightarrow> Inl x | Inr q \<Rightarrow> finish q) =
         (case feed_tokens p rest of Inl x \<Rightarrow> Inl x | Inr q \<Rightarrow> finish q)"
  using assms(4)
proof (induction rest)
  case Nil
  let ?v = "p\<lparr>p_status := StatusBuildValue,
              p_status_history := StatusBuildValue # p_status_history p\<rparr>"
  have "feed ?v eof = Inr p"
    using exit_empty_value [OF assms(1-3)] by (simp add: feed_value eof_def)
  moreover have "feed p eof = Inr p"
    using assms(2) by (simp add: feed_section eof_def)
  ultimately show ?case by (simp add: finish_def)
next
  case (Cons t ts)
  let ?v = "p\<lparr>p_status := StatusBuildValue,
              p_status_history := StatusBuildValue # p_status_history p\<rparr>"
  show ?case
  proof (cases "t_type t = ''comment''")
    case True
    with Cons show ?thesis by simp
  next
    case False
    with Cons.prems have ty: "t_type t \<in> set [''id'', ''section'']" by simp
    then have "feed ?v t = feed p t"
      using exit_empty_value [OF assms(1-3)] by (auto simp: feed_value)
    with False show ?thesis by simp
  qed
qed

text \<open>
  Claim C8 as stated fails: a statement with no value after \<^verbatim>\<open>=\<close> is not always left
  unset. \<^verbatim>\<open>StatusBuildValue._on_exit\<close> pops one value; what an earlier statement pushed
  beyond that stays on the value stack, and the next \<^verbatim>\<open>_on_exit\<close> finds the stack
  non-empty: in \<^verbatim>\<open>"a = 1 2\nb ="\<close> the key \<^verbatim>\<open>b\<close> gets the value \<^verbatim>\<open>1\<close>.
\<close>

theorem empty_assignment_takes_stale_value:
  "parse_content any_date (''a = 1 2'' @ [CHR 0x0A] @ ''b ='') =
     Inr [(VStr ''a'', VInt 2), (VStr ''b'', VInt 1)]"
  by code_simp

text \<open>
  Claim C8, amended: when the value stack is empty once the key has been read, an
  assignment whose \<^verbatim>\<open>=\<close> is followed by the end of input or by the next statement raises
  nothing and assigns nothing, and the following statements are parsed as usual: the
  parse equals the parse of the same tokens without the \<^verbatim>\<open>=\<close>, where the key is only
  remembered as the current variable.
\<close>

theorem empty_assignment_ignored:
  assumes "feed_tokens start (pre @ [k]) = Inr p" "p_value_stack p = []"
    "t_type k = ''id''" "t_type e = ''=''" "next_statement rest"
  shows "parse (pre @ [k, e] @ rest) = parse (pre @ [k] @ rest)"
proof -
  from consistent_feed_tokens [OF consistent_start assms(1)] have c: "consistent p" .
  from assms(1,3) obtain p0 where p0: "feed_tokens start pre = Inr p0" and f: "feed p0 k = Inr p"
    by (cases "feed_tokens start pre") (auto simp: feed_tokens_append split: sum.splits)
  from consistent_feed_tokens [OF consistent_start p0] have "consistent p0" .
  from feed_id_status [OF this assms(3) f] have nv: "p_status p \<noteq> StatusBuildValue" .
  have split_l: "pre @ [k, e] @ rest = (pre @ [k]) @ e # rest"
    and split_r: "pre @ [k] @ rest = (pre @ [k]) @ rest"
    by simp_all
  have "feed_tokens start ((pre @ [k]) @ e # rest) = feed_tokens p (e # rest)"
    by (simp only: feed_tokens_append [of start "pre @ [k]"] assms(1) sum.case)
  with assms(4) have l: "feed_tokens start (pre @ [k, e] @ rest) =
      (case feed p e of Inl x \<Rightarrow> Inl x | Inr q \<Rightarrow> feed_tokens q rest)"
    by (simp only: split_l) simp
  have "feed_tokens start ((pre @ [k]) @ rest) = feed_tokens p rest"
    by (simp only: feed_tokens_append [of start "pre @ [k]"] assms(1) sum.case)
  then have r: "feed_tokens start (pre @ [k] @ rest) = feed_tokens p rest"
    by (simp only: split_r)
  show ?thesis
  proof (cases "p_status p")
    case StatusBuildSection
    with assms(4) have "feed p e = Inr (p\<lparr>p_status := StatusBuildValue,
        p_status_history := StatusBuildValue # p_status_history p\<rparr>)"
      by (simp add: feed_section enter_value)
    with empty_value_rest [OF c StatusBuildSection assms(2,5)] l r show ?thesis
      by (simp add: parse_run)
  next
    case StatusBuildValue
    with nv show ?thesis by simp
  next
    case StatusBuildList
    with assms(4) have "feed p e = Inr p" by (simp add: feed_list scalar_def)
    with l r show ?thesis by (simp add: parse_run)
  qed
qed

theorem empty_assignment_ignored_witness:
  "feed_tokens start ([] @ [TomlToken ''id'' (VStr ''a'') (Some 1) (Some 0)]) =
     Inr (start\<lparr>p_var := VStr ''a''\<rparr>)
   \<and> p_value_stack (start\<lparr>p_var := VStr ''a''\<rparr>) = []
   \<and> next_statement [TomlToken ''id'' (VStr ''b'') (Some 2) (Some 0),
        TomlToken ''='' (VStr ''='') (Some 2) (Some 2),
        TomlToken ''int'' (VInt 2) (Some 2) (Some 4)]
   \<and> parse ([] @ [TomlToken ''id'' (VStr ''a'') (Some 1) (Some 0),
                   TomlToken ''='' (VStr ''='') (Some 1) (Some 2)] @
        [TomlToken ''id'' (VStr ''b'') (Some 2) (Some 0),
         TomlToken ''='' (VStr ''='') (Some 2) (Some 2),
         TomlToken ''int'' (VInt 2) (Some 2) (Some 4)]) =
     parse ([] @ [TomlToken ''id'' (VStr ''a'') (Some 1) (Some 0)] @
        [TomlToken ''id'' (VStr ''b'') (Some 2) (Some 0),
         TomlToken ''='' (VStr ''='') (Some 2) (Some 2),
         TomlToken ''int'' (VInt 2) (Some 2) (Some 4)])
   \<and> parse_content any_date (''a ='' @ [CHR 0x0A] @ ''b = 2'') = Inr [(VStr ''b'', VInt 2)]
   \<and> parse_content any_date ''a ='' = Inr []"
proof -
  have f: "feed_tokens start ([] @ [TomlToken ''id'' (VStr ''a'') (Some 1) (Some 0)]) =
     Inr (start\<lparr>p_var := VStr ''a''\<rparr>)"
    by (simp add: feed_section start_def)
  have v: "p_value_stack (start\<lparr>p_var := VStr ''a''\<rparr>) = []"
    by (simp add: start_def)
  have n: "next_statement [TomlToken ''id'' (VStr ''b'') (Some 2) (Some 0),
        TomlToken ''='' (VStr ''='') (Some 2) (Some 2),
        TomlToken ''int'' (VInt 2) (Some 2) (Some 4)]"
    by simp
  have t: "t_type (TomlToken ''id'' (VStr ''a'') (Some 1) (Some 0)) = ''id''"
    "t_type (TomlToken ''='' (VStr ''='') (Some 1) (Some 2)) = ''=''"
    by simp_all
  note u = empty_assignment_ignored [OF f v t n]
  have c1: "parse_content any_date (''a ='' @ [CHR 0x0A] @ ''b = 2'') = Inr [(VStr ''b'', VInt 2)]"
    by code_simp
  have c2: "parse_content any_date ''a ='' = Inr []"
    by code_simp
  from f v n u c1 c2 show ?thesis by (intro conjI)
qed


subsection \<open>Storing an assignment\<close>

text \<open>
  \<open>store p v\<close>: what the exit of \<^verbatim>\<open>StatusBuildValue\<close> with the value token \<open>v\<close> on top of
  the value stack does to the parser \<open>p\<close> that read the key: \<^verbatim>\<open>_on_exit\<close> puts the value
  under \<^verbatim>\<open>self.var\<close> into the pending context, and the re-entered \<^verbatim>\<open>StatusBuildSection\<close> moves
  the pending context into the result tree with \<^verbatim>\<open>sync_result\<close>.
\<close>

definition store :: "parser \<Rightarrow> token \<Rightarrow> error + parser" where
  "store p v =
     (if hashable (p_var p)
      then sync_result (p\<lparr>p_context := [(p_var p, t_val v)]\<rparr>) (p_section_name p)
      else Inl TypeError)"

lemma dict_set_twice: "dict_set (dict_set d k a) k b = dict_set d k b"
  by (induction d) auto

lemma map_of_dict_set: "map_of (dict_set d k v) k = Some v"
  by (induction d) auto

lemma map_of_dict_set_other: "k' \<noteq> k \<Longrightarrow> map_of (dict_set d k v) k' = map_of d k'"
  by (induction d) auto

lemma sync_parts_twice:
  "sync_parts d ps [(k, a)] = Inr d1 \<Longrightarrow> sync_parts d1 ps [(k, b)] = sync_parts d ps [(k, b)]"
proof (induction ps arbitrary: d d1)
  case Nil
  then show ?case by (auto simp: dict_update_def dict_set_twice)
next
  case (Cons part ps)
  show ?case
  proof (cases "map_of d (VStr part)")
    case None
    with Cons.prems obtain c where c: "sync_parts [] ps [(k, a)] = Inr c"
      and d1: "d1 = dict_set d (VStr part) (VDict c)"
      by (auto split: sum.splits)
    from Cons.IH [OF c] None d1 show ?thesis
      by (simp add: map_of_dict_set dict_set_twice split: sum.splits)
  next
    case (Some x)
    with Cons.prems obtain d0 c where x: "x = VDict d0"
      and c: "sync_parts d0 ps [(k, a)] = Inr c"
      and d1: "d1 = dict_set d (VStr part) (VDict c)"
      by (auto split: sum.splits pyobj.splits)
    from Cons.IH [OF c] Some x d1 show ?thesis
      by (simp add: map_of_dict_set dict_set_twice split: sum.splits)
  qed
qed

lemma sync_parts_error:
  "sync_parts d ps c1 = Inl err \<Longrightarrow> sync_parts d ps c2 = Inl err"
proof (induction ps arbitrary: d)
  case Nil
  then show ?case by simp
next
  case (Cons part ps)
  show ?case
  proof (cases "map_of d (VStr part)")
    case None
    with Cons.prems have "sync_parts [] ps c1 = Inl err" by (auto split: sum.splits)
    from Cons.IH [OF this] None show ?thesis by simp
  next
    case (Some x)
    show ?thesis
    proof (cases x)
      case (VDict d0)
      with Some Cons.prems have "sync_parts d0 ps c1 = Inl err" by (auto split: sum.splits)
      from Cons.IH [OF this] Some VDict show ?thesis by simp
    qed (use Some Cons.prems in auto)
  qed
qed

lemma store_twice:
  assumes "store p v1 = Inr q"
  shows "q = p\<lparr>p_result := p_result q, p_context := []\<rparr> \<and> store q v2 = store p v2"
proof (cases "py_truthy (p_section_name p)")
  case True
  with assms obtain s r where n: "p_section_name p = VStr s" and h: "hashable (p_var p)"
    and r: "sync_parts (p_result p) (py_split s (CHR ''.'')) [(p_var p, t_val v1)] = Inr r"
    and q: "q = p\<lparr>p_context := [], p_result := r\<rparr>"
    by (auto simp: store_def sync_result_def split: if_splits pyobj.splits sum.splits)
  from sync_parts_twice [OF r, of "t_val v2"] True n h q show ?thesis
    by (auto simp: store_def sync_result_def split: sum.splits)
next
  case False
  with assms show ?thesis
    by (auto simp: store_def sync_result_def dict_update_def dict_set_twice split: if_splits)
qed

lemma store_error:
  assumes "store p v1 = Inl err"
  shows "store p v2 = Inl err"
proof (cases "hashable (p_var p)")
  case False
  with assms show ?thesis by (simp add: store_def)
next
  case h: True
  show ?thesis
  proof (cases "py_truthy (p_section_name p)")
    case False
    with assms h show ?thesis by (simp add: store_def sync_result_def)
  next
    case True
    show ?thesis
    proof (cases "p_section_name p")
      case (VStr s)
      with assms h True
      have "sync_parts (p_result p) (py_split s (CHR ''.'')) [(p_var p, t_val v1)] = Inl err"
        by (auto simp: store_def sync_result_def split: sum.splits)
      from sync_parts_error [OF this] h True VStr show ?thesis
        by (simp add: store_def sync_result_def)
    qed (use assms h True in \<open>auto simp: store_def sync_result_def\<close>)
  qed
qed

lemma exit_store:
  assumes "consistent p" "p_status p = StatusBuildSection"
  shows "exit (p\<lparr>p_status := StatusBuildValue,
                 p_status_history := StatusBuildValue # p_status_history p,
                 p_value_stack := v # p_value_stack p\<rparr>) = store p v"
proof -
  from assms obtain r where h: "p_status_history p = StatusBuildSection # r"
    by (cases "p_status_history p") (auto simp: consistent_def)
  from assms(1) obtain n ns where s: "p_section_history p = n # ns" "p_section_name p = n"
    by (cases "p_section_history p") (auto simp: consistent_def)
  from assms(1) have c: "p_context p = []" by (simp add: consistent_def)
  show ?thesis
    using assms(2) h s c
    by (cases p)
       (auto simp: exit_def enter_def sync_result_def Let_def store_def combine_values_def
          split: sum.splits pyobj.splits)
qed

lemma consistent_store:
  assumes "consistent p" "p_status p = StatusBuildSection" "store p v = Inr q"
  shows "consistent q \<and> p_status q = StatusBuildSection"
proof -
  let ?pv = "p\<lparr>p_status := StatusBuildValue,
                 p_status_history := StatusBuildValue # p_status_history p,
                 p_value_stack := v # p_value_stack p\<rparr>"
  have "feed_tokens p [TomlToken ''='' VNone None None, TomlToken ''int'' (t_val v) None None]
      = Inr (p\<lparr>p_status := StatusBuildValue,
                 p_status_history := StatusBuildValue # p_status_history p,
                 p_value_stack := TomlToken ''int'' (t_val v) None None # p_value_stack p\<rparr>)"
    using assms(2) by (simp add: feed_section feed_value enter_value scalar_def)
  from consistent_feed_tokens [OF assms(1) this]
  have c: "consistent (p\<lparr>p_status := StatusBuildValue,
                 p_status_history := StatusBuildValue # p_status_history p,
                 p_value_stack := TomlToken ''int'' (t_val v) None None # p_value_stack p\<rparr>)" .
  from exit_store [OF assms(1,2), of "TomlToken ''int'' (t_val v) None None"] assms(3)
  have "exit (p\<lparr>p_status := StatusBuildValue,
                 p_status_history := StatusBuildValue # p_status_history p,
                 p_value_stack := TomlToken ''int'' (t_val v) None None # p_value_stack p\<rparr>) = Inr q"
    by (auto simp: store_def split: if_splits)
  from consistent_exit_value [OF c _ this] show ?thesis by simp
qed

text \<open>
  After \<^verbatim>\<open>=\<close> and one scalar value, the end of input or the next statement stores the
  assignment and goes on from the stored state.
\<close>

lemma assigned_rest:
  assumes "consistent p" "p_status p = StatusBuildSection" "next_statement rest"
  shows "(case feed_tokens (p\<lparr>p_status := StatusBuildValue,
              p_status_history := StatusBuildValue # p_status_history p,
              p_value_stack := v # p_value_stack p\<rparr>) rest of
            Inl x \<Rightarrow> Inl x | Inr q \<Rightarrow> finish q) =
         (case store p v of
            Inl x \<Rightarrow> Inl x
          | Inr p' \<Rightarrow> (case feed_tokens p' rest of Inl x \<Rightarrow> Inl x | Inr q \<Rightarrow> finish q))"
  using assms(3)
proof (induction rest)
  case Nil
  let ?v = "p\<lparr>p_status := StatusBuildValue,
              p_status_history := StatusBuildValue # p_status_history p,
              p_value_stack := v # p_value_stack p\<rparr>"
  have f: "feed ?v eof = store p v"
    using exit_store [OF assms(1,2), of v] by (simp add: feed_value eof_def split: sum.splits)
  show ?case
  proof (cases "store p v")
    case (Inl err)
    with f show ?thesis by (simp add: finish_def)
  next
    case (Inr p')
    from consistent_store [OF assms(1,2) Inr]
    have c: "consistent p'" and s: "p_status p' = StatusBuildSection" by auto
    from exit_section_result [OF c s] obtain p2 where "exit p' = Inr p2" "p_result p2 = p_result p'"
      by blast
    with f Inr finish_section [OF c s] show ?thesis by (simp add: finish_def)
  qed
next
  case (Cons t ts)
  let ?v = "p\<lparr>p_status := StatusBuildValue,
              p_status_history := StatusBuildValue # p_status_history p,
              p_value_stack := v # p_value_stack p\<rparr>"
  show ?case
  proof (cases "t_type t = ''comment''")
    case True
    with Cons show ?thesis by (simp split: sum.splits)
  next
    case False
    with Cons.prems have ty: "t_type t \<in> set [''id'', ''section'']" by simp
    then have "feed ?v t = (case store p v of Inl x \<Rightarrow> Inl x | Inr p' \<Rightarrow> feed p' t)"
      using exit_store [OF assms(1,2), of v] by (auto simp: feed_value split: sum.splits)
    with False show ?thesis by (simp split: sum.splits)
  qed
qed


lemma feed_id_var:
  assumes "consistent p0" "t_type k = ''id''" "feed p0 k = Inr p"
    "p_status p = StatusBuildSection"
  shows "p_var p = t_val k"
proof (cases "p_status p0")
  case StatusBuildSection
  with assms show ?thesis by (auto simp: feed_section)
next
  case StatusBuildValue
  with assms obtain p1 where e: "exit p0 = Inr p1" and f: "feed p1 k = Inr p"
    by (auto simp: feed_value split: sum.splits)
  from consistent_exit_value [OF assms(1) StatusBuildValue e] f assms(2) show ?thesis
    by (auto simp: feed_section)
next
  case StatusBuildList
  with assms show ?thesis by (auto simp: feed_list scalar_def)
qed

lemma feed_assign:
  assumes "p_status p = StatusBuildSection" "t_type e = ''=''" "scalar v"
  shows "feed_tokens p (e # v # rest) =
     feed_tokens (p\<lparr>p_status := StatusBuildValue,
              p_status_history := StatusBuildValue # p_status_history p,
              p_value_stack := v # p_value_stack p\<rparr>) rest"
proof -
  from assms(3) have "t_type v \<noteq> ''comment''" "t_type v \<notin> set [''id'', '']'', ''section'', ''eof'']"
    by (auto simp: scalar_def)
  with assms show ?thesis
    by (simp add: feed_section feed_value enter_value)
qed

text \<open>
  After the key has been read at statement level, \<^verbatim>\<open>= v rest\<close> is the stored assignment
  followed by \<open>rest\<close>.
\<close>

lemma assignment_run:
  assumes "consistent p" "p_status p = StatusBuildSection" "t_type e = ''=''" "scalar v"
    "next_statement rest"
  shows "(case feed_tokens p (e # v # rest) of Inl x \<Rightarrow> Inl x | Inr q \<Rightarrow> finish q) =
         (case store p v of
            Inl x \<Rightarrow> Inl x
          | Inr p' \<Rightarrow> (case feed_tokens p' rest of Inl x \<Rightarrow> Inl x | Inr q \<Rightarrow> finish q))"
  by (simp only: feed_assign [OF assms(2-4)] assigned_rest [OF assms(1,2,5)])



subsection \<open>Scalar assignments\<close>

lemma feed_tokens_comments:
  "feed_tokens p (filter (\<lambda>t. t_type t \<noteq> ''comment'') ts) = feed_tokens p ts"
  by (induction ts arbitrary: p) (auto split: sum.splits)

lemma parse_comments: "parse (filter (\<lambda>t. t_type t \<noteq> ''comment'') ts) = parse ts"
  by (simp add: parse_run feed_tokens_comments)

lemma store_root:
  "p_context p = [] \<Longrightarrow> p_section_name p = VStr [] \<Longrightarrow> hashable (p_var p) \<Longrightarrow>
   store p v = Inr (p\<lparr>p_result := dict_set (p_result p) (p_var p) (t_val v)\<rparr>)"
  by (cases p) (simp add: store_def sync_result_def dict_update_def)

lemma parse_scalar_assignment:
  assumes "t_type k = ''id''" "hashable (t_val k)" "t_type e = ''=''" "scalar v"
  shows "parse [k, e, v] = Inr [(t_val k, t_val v)]"
proof -
  let ?p = "start\<lparr>p_var := t_val k\<rparr>"
  have f: "feed_tokens start [k, e, v] = feed_tokens ?p [e, v]"
    using assms(1) by (simp add: feed_section start_def)
  have c: "consistent ?p"
    by (simp add: consistent_def start_def open_brackets_def open_lists_def)
  have s: "p_status ?p = StatusBuildSection" by (simp add: start_def)
  have st: "store ?p v = Inr (?p\<lparr>p_result := [(t_val k, t_val v)]\<rparr>)"
    using assms(2) by (subst store_root) (simp_all add: start_def)
  from consistent_store [OF c s st]
  have "finish (?p\<lparr>p_result := [(t_val k, t_val v)]\<rparr>) = Inr [(t_val k, t_val v)]"
    by (subst finish_section) simp_all
  with assignment_run [OF c s assms(3,4), of "[]"] st f show ?thesis
    by (simp add: parse_run)
qed


subsection \<open>Lists that hold a string outside ASCII\<close>

text \<open>
  \<^verbatim>\<open>combine_values\<close> formats every value it pops from the value stack into a message for
  the logger, before the logger is asked whether it wants the message. A string token's
  value is a \<^verbatim>\<open>unicode\<close> object, and formatting one with a character outside ASCII raises
  \<^verbatim>\<open>UnicodeEncodeError\<close>. The loop runs when a list is closed and when the end of input
  exits an open list, so no list with such a string is ever built. A scalar assignment
  takes the other branch of \<^verbatim>\<open>combine_values\<close>, which formats nothing. The four claims
  below fail on the code for this one reason; the examples use the two bytes of
  \<^verbatim>\<open>U+00E9\<close>.
\<close>

text \<open>
  Claim C4 (fails on the code): the elements of every list expression appear in the
  result in the order of the source. The examples of the specification do; the list
  \<^verbatim>\<open>a = ["\xc3\xa9"]\<close> has no result at all, while the same string as a scalar is stored.
\<close>

theorem list_with_non_ascii_string_raises:
  "parse_content parse_datetime (''a = ['' @ [CHR 0x22, CHR 0xC3, CHR 0xA9, CHR 0x22] @ '']'') =
     Inl UnicodeEncodeError
   \<and> tokenize_content parse_datetime
       (''a = ['' @ [CHR 0x22, CHR 0xC3, CHR 0xA9, CHR 0x22] @ '']'') =
     Inr [TomlToken ''id'' (VStr ''a'') (Some 1) (Some 0),
          TomlToken ''='' (VStr ''='') (Some 1) (Some 2),
          TomlToken ''['' (VStr ''['') (Some 1) (Some 4),
          TomlToken ''string'' (VUnicode [CHR 0xC3, CHR 0xA9]) (Some 1) (Some 5),
          TomlToken '']'' (VStr '']'') (Some 1) (Some 9)]
   \<and> parse_content parse_datetime (''a = '' @ [CHR 0x22, CHR 0xC3, CHR 0xA9, CHR 0x22]) =
     Inr [(VStr ''a'', VUnicode [CHR 0xC3, CHR 0xA9])]
   \<and> parse_content parse_datetime ''a = [1,2,3]'' =
     Inr [(VStr ''a'', VList [VInt 1, VInt 2, VInt 3])]
   \<and> parse_content parse_datetime ''a = [[1,2],[3,4]]'' =
     Inr [(VStr ''a'', VList [VList [VInt 1, VInt 2], VList [VInt 3, VInt 4]])]"
  by code_simp

text \<open>
  Claim C10 (fails on the code): when the last statement opens a list that is never
  closed, the parse raises no error and returns a tree without the statement's key. It
  does for \<^verbatim>\<open>a = [1,2\<close>. For \<^verbatim>\<open>a = ["\xc3\xa9"\<close> the one \<^verbatim>\<open>exit\<close> at the end of input runs
  \<^verbatim>\<open>combine_values('[')\<close>, which raises.
\<close>

theorem unclosed_list_with_non_ascii_string_raises:
  "parse_content parse_datetime (''a = ['' @ [CHR 0x22, CHR 0xC3, CHR 0xA9, CHR 0x22]) =
     Inl UnicodeEncodeError
   \<and> parse_content parse_datetime ''a = [1,2'' = Inr []"
  by code_simp

text \<open>
  Claim C3 (fails on the code): every assignment after a section header is placed under
  that section. The example of the specification is; the assignment of a list with a
  string outside ASCII is not placed, the parse raises, while the same string as a scalar
  is placed under the section.
\<close>

theorem section_assignment_of_list_raises:
  "parse_content parse_datetime
     (''[s]'' @ [CHR 0x0A] @ ''x = ['' @ [CHR 0x22, CHR 0xC3, CHR 0xA9, CHR 0x22] @ '']'') =
     Inl UnicodeEncodeError
   \<and> parse_content parse_datetime
     (''[s]'' @ [CHR 0x0A] @ ''x = '' @ [CHR 0x22, CHR 0xC3, CHR 0xA9, CHR 0x22]) =
     Inr [(VStr ''s'', VDict [(VStr ''x'', VUnicode [CHR 0xC3, CHR 0xA9])])]
   \<and> parse_content parse_datetime (''[a.b]'' @ [CHR 0x0A] @ ''x = 1'') =
     Inr [(VStr ''a'', VDict [(VStr ''b'', VDict [(VStr ''x'', VInt 1)])])]"
  by code_simp

text \<open>
  Claim C9 (fails on the code): of two assignments to one key at one path the later
  overwrites the earlier. It does in the example of the specification; when the later
  value is a list with a string outside ASCII the parse raises and nothing is
  overwritten.
\<close>

theorem later_assignment_of_list_raises:
  "parse_content parse_datetime
     (''a = 1'' @ [CHR 0x0A] @ ''a = ['' @ [CHR 0x22, CHR 0xC3, CHR 0xA9, CHR 0x22] @ '']'') =
     Inl UnicodeEncodeError
   \<and> parse_content parse_datetime (''a = 1'' @ [CHR 0x0A] @ ''a = 2'') = Inr [(VStr ''a'', VInt 2)]
   \<and> parse_content parse_datetime
     (''[s]'' @ [CHR 0x0A] @ ''a = 1'' @ [CHR 0x0A] @ ''[s]'' @ [CHR 0x0A] @ ''a = 2'') =
     Inr [(VStr ''s'', VDict [(VStr ''a'', VInt 2)])]"
  by code_simp

subsection \<open>Lex errors\<close>






































lemma splitlines_from_nonempty: "cur \<noteq> [] \<Longrightarrow> splitlines_from cur x \<noteq> []"
proof (induction x arbitrary: cur)
  case Nil
  then show ?case by simp
next
  case (Cons c cs)
  show ?case
  proof (cases "c = CHR 0x0A \<or> c = CHR 0x0D")
    case True
    then show ?thesis by (cases cs) auto
  next
    case False
    with Cons.IH [of "cur @ [c]"] show ?thesis by simp
  qed
qed











end
